theory Spec2Isabelle
  imports Complex_Main "HOL-Library.Multiset" "HOL-Library.Log_Nat"
begin

section \<open>Approval tally: data model\<close>

text \<open>
  The embedding follows \<^verbatim>\<open>agora_tally/voting_systems/approval.py\<close>.
  Python dictionaries with a fixed set of keys are records; the keys
  \<^verbatim>\<open>answers\<close>, \<^verbatim>\<open>votes\<close> and \<^verbatim>\<open>value\<close> occur in several
  dictionaries, so the fields carry a prefix naming the dictionary
  (\<open>q_\<close> question, \<open>a_\<close> answer, \<open>b_\<close> ballot, \<open>r_\<close> report).
  Strings are \<^typ>\<open>string\<close>, Python integers are \<^typ>\<open>int\<close>.
\<close>

text \<open>
  A Python float is an IEEE 754 double. A finite double is the rational number it stands
  for; the two infinities are values of their own. The two zeros of IEEE 754 are one
  value here, and there is no NaN: no operation below can produce one.
\<close>

datatype double = Finite rat | PosInf | NegInf

record answer =
  a_value :: string
  a_total_count :: int
  a_total_count_percentage :: double

record question =
  q_answers :: "answer list"
  q_min :: int
  q_max :: int
  q_num_seats :: int
  q_question :: string
  q_total_votes :: int
  q_dirty_votes :: int
  q_winners :: "string list"

text \<open>
  An item of \<^verbatim>\<open>self.ballots\<close>:
  \<^verbatim>\<open>{'votes': 12, 'answers': [2, 1, 4]}\<close>.
\<close>

record ballot =
  b_votes :: int
  b_answers :: "int list"

text \<open>The exceptions the code can raise in the parts modelled here.\<close>

datatype error = Exception | ValueError | KeyError | OverflowError | ZeroDivisionError

section \<open>The builtins \<^verbatim>\<open>str\<close> and \<^verbatim>\<open>int\<close> on decimal text\<close>

definition digit_char :: "nat \<Rightarrow> char" where
  "digit_char d = char_of (48 + d)"

definition is_digit :: "char \<Rightarrow> bool" where
  "is_digit c = (48 \<le> (of_char c :: nat) \<and> (of_char c :: nat) \<le> 57)"

definition digit_val :: "char \<Rightarrow> nat" where
  "digit_val c = of_char c - 48"

fun str_nat :: "nat \<Rightarrow> string" where
  "str_nat n = (if n < 10 then [digit_char n] else str_nat (n div 10) @ [digit_char (n mod 10)])"

declare str_nat.simps [simp del]

text \<open>\<^verbatim>\<open>str(i)\<close> of a Python integer: decimal digits, a minus sign first when negative.\<close>

definition str_int :: "int \<Rightarrow> string" where
  "str_int i = (if i < 0 then CHR ''-'' # str_nat (nat (- i)) else str_nat (nat i))"

definition dec_val :: "string \<Rightarrow> nat" where
  "dec_val s = foldl (\<lambda>a c. 10 * a + digit_val c) 0 s"

text \<open>
  \<^verbatim>\<open>int(s)\<close> on the strings that arise here: an optional minus sign followed by one
  or more decimal digits; anything else raises \<^verbatim>\<open>ValueError\<close>.
\<close>

definition py_int :: "string \<Rightarrow> error + int" where
  "py_int s =
     (case s of
        [] \<Rightarrow> Inl ValueError
      | c # ds \<Rightarrow>
          if c = CHR ''-'' then
            (if ds \<noteq> [] \<and> list_all is_digit ds then Inr (- int (dec_val ds)) else Inl ValueError)
          else if list_all is_digit s then Inr (int (dec_val s))
          else Inl ValueError)"

text \<open>The slice \<^verbatim>\<open>s[a:b]\<close> for \<open>0 \<le> a \<le> b\<close>; Python clips it at the end of \<open>s\<close>.\<close>

definition slice :: "'a list \<Rightarrow> nat \<Rightarrow> nat \<Rightarrow> 'a list" where
  "slice s a b = take (b - a) (drop a s)"

section \<open>\<^verbatim>\<open>parse_vote\<close>\<close>

text \<open>
  The body of the \<^verbatim>\<open>for i in range(...)\<close> loop of \<^verbatim>\<open>parse_vote\<close>, run over the
  remaining indices with the list \<^verbatim>\<open>ret\<close> built so far. An option below zero raises;
  an option within the answers is resolved to the answer's value; an option at or above
  the number of answers raises.
\<close>

fun parse_fields :: "question \<Rightarrow> string \<Rightarrow> nat \<Rightarrow> nat list \<Rightarrow> string list \<Rightarrow> error + string list" where
  "parse_fields question vote_str tab_size [] ret = Inr ret"
| "parse_fields question vote_str tab_size (i # is) ret =
     (case py_int (slice vote_str (i * tab_size) ((i + 1) * tab_size)) of
        Inl e \<Rightarrow> Inl e
      | Inr v \<Rightarrow>
          (let option = v - 1 in
           if option < 0 then Inl Exception
           else if option \<ge> int (length (q_answers question)) then Inl Exception
           else parse_fields question vote_str tab_size is
                  (ret @ [a_value (q_answers question ! nat option)])))"

definition tab_size_of :: "question \<Rightarrow> nat" where
  "tab_size_of question = length (str_int (int (length (q_answers question)) + 2))"

definition add_zeros :: "nat \<Rightarrow> string \<Rightarrow> string" where
  "add_zeros tab_size vote_str =
     (if length vote_str mod tab_size \<noteq> 0
      then replicate ((tab_size - length vote_str mod tab_size) mod tab_size) CHR ''0'' @ vote_str
      else vote_str)"

definition parse_vote :: "int \<Rightarrow> question \<Rightarrow> error + string list" where
  "parse_vote number question =
     (let vote_str = str_int number;
          tab_size = tab_size_of question;
          vote_str = add_zeros tab_size vote_str
      in case parse_fields question vote_str tab_size [0 ..< length vote_str div tab_size] [] of
           Inl e \<Rightarrow> Inl e
         | Inr ret \<Rightarrow>
             if int (length ret) < q_min question \<or> int (length ret) > q_max question
                \<or> card (set ret) \<noteq> length ret
             then Inl Exception
             else Inr ret)"

section \<open>The tally object\<close>

text \<open>
  The report of the external tally engine, \<^verbatim>\<open>self.report.json\<close>. The dictionary
  \<^verbatim>\<open>json_report['answers']\<close> (answer value to vote count) is an association list in
  iteration order; the keys of a Python dictionary are distinct.
\<close>

record json_report =
  r_ballots_count :: int
  r_dirty_ballots_count :: int
  r_winners :: "string list"
  r_answers :: "(string \<times> int) list"

text \<open>
  The attributes of \<^verbatim>\<open>ApprovalTally\<close>. \<open>ballots_file\<close> is the text written to the
  ballots file so far; \<open>answer_to_ids_dict\<close> is a dictionary from answer values to ids.
  Each method takes the tally and returns the tally it leaves behind. The methods receive
  the question \<^verbatim>\<open>result[self.question_num]\<close> and the choices
  \<^verbatim>\<open>voter_answers[self.question_num]['choices']\<close> themselves.
\<close>

record tally =
  ballots_file :: string
  ballots_path :: string
  ballots :: "ballot list"
  answer_to_ids_dict :: "string \<rightharpoonup> int"
  num_seats :: int

text \<open>\<^verbatim>\<open>init\<close>; the path is the one \<^verbatim>\<open>tempfile.mktemp\<close> returns.\<close>

definition init :: "tally \<Rightarrow> string \<Rightarrow> tally" where
  "init s path = s\<lparr>ballots_path := path, ballots := [], answer_to_ids_dict := Map.empty\<rparr>"

text \<open>The loop of \<^verbatim>\<open>pre_tally\<close> that fills the dictionary, with its counter \<open>i\<close>.\<close>

fun fill_answer_to_ids :: "(string \<rightharpoonup> int) \<Rightarrow> int \<Rightarrow> answer list \<Rightarrow> (string \<rightharpoonup> int)" where
  "fill_answer_to_ids d i [] = d"
| "fill_answer_to_ids d i (answer # rest) = fill_answer_to_ids (d(a_value answer \<mapsto> i)) (i + 1) rest"

text \<open>
  \<^verbatim>\<open>pre_tally\<close> opens the file for writing (it is empty then), fills the dictionary and
  writes the header \<^verbatim>\<open>'%d %d\n'\<close>.
\<close>

definition pre_tally :: "tally \<Rightarrow> question \<Rightarrow> tally" where
  "pre_tally s question =
     s\<lparr>ballots_file :=
         str_int (int (length (q_answers question))) @ '' '' @ str_int (q_num_seats question) @ [CHR 0x0A],
       num_seats := q_num_seats question,
       answer_to_ids_dict := fill_answer_to_ids (answer_to_ids_dict s) 1 (q_answers question)\<rparr>"

definition answer2id :: "tally \<Rightarrow> string \<Rightarrow> int" where
  "answer2id s answer = (case answer_to_ids_dict s answer of Some i \<Rightarrow> i | None \<Rightarrow> - 1)"

text \<open>
  \<^verbatim>\<open>find_ballot\<close> returns a reference to the first ballot of the list whose answers
  equal the given list, or \<^verbatim>\<open>None\<close>. The reference is the ballot's position.
\<close>

fun find_ballot :: "ballot list \<Rightarrow> int list \<Rightarrow> nat option" where
  "find_ballot [] answers = None"
| "find_ballot (ballot # rest) answers =
     (if b_answers ballot = answers then Some 0 else map_option Suc (find_ballot rest answers))"

definition add_vote :: "tally \<Rightarrow> string list \<Rightarrow> tally" where
  "add_vote s choices =
     (let answers = map (answer2id s) choices in
      if - 1 \<in> set answers then s
      else case find_ballot (ballots s) answers of
             Some k \<Rightarrow>
               s\<lparr>ballots := (ballots s)[k := (ballots s ! k)\<lparr>b_votes := b_votes (ballots s ! k) + 1\<rparr>]\<rparr>
           | None \<Rightarrow> s\<lparr>ballots := ballots s @ [\<lparr>b_votes = 1, b_answers = answers\<rparr>]\<rparr>)"

text \<open>\<^verbatim>\<open>' '.join(xs)\<close> and \<^verbatim>\<open>self.ballots_file.write(txt)\<close>.\<close>

fun join :: "string \<Rightarrow> string list \<Rightarrow> string" where
  "join sep [] = []"
| "join sep [x] = x"
| "join sep (x # y # ys) = x @ sep @ join sep (y # ys)"

definition file_write :: "tally \<Rightarrow> string \<Rightarrow> tally" where
  "file_write s txt = s\<lparr>ballots_file := ballots_file s @ txt\<rparr>"

text \<open>
  \<^verbatim>\<open>finish_writing_ballots_file\<close>: one write per ballot, the line \<^verbatim>\<open>'0\n'\<close>, one
  write per answer and one for the question's text, from which \<^verbatim>\<open>replace\<close> takes the
  newlines out. The calls of \<^verbatim>\<open>encode\<close>, whose results are dropped, and the closing of
  the file are left out.
\<close>

definition finish_writing_ballots_file :: "tally \<Rightarrow> question \<Rightarrow> tally" where
  "finish_writing_ballots_file s question =
     (let s1 = foldl (\<lambda>t ballot.
                   file_write t (str_int (b_votes ballot) @ '' '' @ join '' '' (map str_int (b_answers ballot))
                            @ '' 0'' @ [CHR 0x0A]))
                 s (ballots s);
          s2 = file_write s1 (''0'' @ [CHR 0x0A]);
          s3 = foldl (\<lambda>t answer. file_write t ([CHR 0x22] @ a_value answer @ [CHR 0x22, CHR 0x0A]))
                 s2 (q_answers question);
          q = [CHR 0x22] @ filter (\<lambda>c. c \<noteq> CHR 0x0A) (q_question question) @ [CHR 0x22, CHR 0x0A]
      in file_write s3 q)"

section \<open>\<^verbatim>\<open>fill_results\<close>\<close>

text \<open>
  The first loop of \<^verbatim>\<open>fill_results\<close>: the sum of the counts of all names of the report.
\<close>

definition sum_report_votes :: "(string \<times> int) list \<Rightarrow> int" where
  "sum_report_votes report_answers =
     foldl (\<lambda>total_votes name.
              case map_of report_answers name of Some c \<Rightarrow> total_votes + c | None \<Rightarrow> total_votes)
       0 (map fst report_answers)"

subsection \<open>Float arithmetic\<close>

text \<open>
  Rounding to the nearest double, ties to the even significand. For a positive \<open>x\<close>,
  \<open>exponent x\<close> is the \<open>e\<close> with \<open>2 ^ e \<le> x < 2 ^ (e + 1)\<close>, and the doubles near \<open>x\<close> are
  the multiples of \<open>2 ^ quantum x\<close>: 53 significant bits, and never finer than
  \<open>2 ^ - 1074\<close>, the step of the subnormal doubles. A rounded magnitude of \<open>2 ^ 1024\<close> or
  more is an overflow.
\<close>

definition pow2 :: "int \<Rightarrow> rat" where
  "pow2 k = (if 0 \<le> k then 2 ^ nat k else 1 / 2 ^ nat (- k))"

definition exponent :: "rat \<Rightarrow> int" where
  "exponent x = (if 1 \<le> x then bitlen \<lfloor>x\<rfloor> - 1 else - bitlen (\<lceil>1 / x\<rceil> - 1))"

definition quantum :: "rat \<Rightarrow> int" where
  "quantum x = max (exponent x - 52) (- 1074)"

definition round_half_even :: "rat \<Rightarrow> int" where
  "round_half_even m =
     (let f = \<lfloor>m\<rfloor>; r = m - of_int f
      in if r < 1 / 2 then f else if 1 / 2 < r then f + 1 else if even f then f else f + 1)"

definition round_double :: "rat \<Rightarrow> double" where
  "round_double x =
     (if x = 0 then Finite 0
      else let a = \<bar>x\<bar>;
               r = of_int (round_half_even (a / pow2 (quantum a))) * pow2 (quantum a)
           in if 2 ^ 1024 \<le> r then (if 0 < x then PosInf else NegInf)
              else Finite (if 0 < x then r else - r))"

text \<open>
  The conversion of an integer operand to a float raises \<^verbatim>\<open>OverflowError\<close> when the
  integer is too large; the product and the quotient of floats are rounded, and a product
  that overflows is an infinity. The operands here are finite, but for a product that
  has overflowed already.
\<close>

definition float_of_int :: "int \<Rightarrow> error + rat" where
  "float_of_int i =
     (case round_double (of_int i) of
        Finite r \<Rightarrow> Inr r
      | PosInf \<Rightarrow> Inl OverflowError
      | NegInf \<Rightarrow> Inl OverflowError)"

definition float_mul :: "rat \<Rightarrow> rat \<Rightarrow> double" where
  "float_mul a b = round_double (a * b)"

definition float_div :: "double \<Rightarrow> rat \<Rightarrow> error + double" where
  "float_div x t =
     (if t = 0 then Inl ZeroDivisionError
      else Inr (case x of
                  Finite a \<Rightarrow> round_double (a / t)
                | PosInf \<Rightarrow> (if 0 < t then PosInf else NegInf)
                | NegInf \<Rightarrow> (if 0 < t then NegInf else PosInf)))"

text \<open>The expression \<^verbatim>\<open>(answer['total_count'] * 100.0) / total_votes\<close> on two integers.\<close>

definition percentage :: "int \<Rightarrow> int \<Rightarrow> error + double" where
  "percentage total_count total_votes =
     (case float_of_int total_count of
        Inl e \<Rightarrow> Inl e
      | Inr c \<Rightarrow>
          (let product = float_mul c 100 in
           case float_of_int total_votes of
             Inl e \<Rightarrow> Inl e
           | Inr t \<Rightarrow> float_div product t))"

text \<open>
  The second loop. A name missing from the report raises \<^verbatim>\<open>KeyError\<close>, and a count or a
  total too large for a float raises \<^verbatim>\<open>OverflowError\<close>; what was assigned before is
  assigned, since the dictionaries are changed in place. The integer \<^verbatim>\<open>0\<close> of the other
  branch is the number zero.
\<close>

fun fill_answers :: "(string \<times> int) list \<Rightarrow> int \<Rightarrow> answer list \<Rightarrow> error option \<times> answer list" where
  "fill_answers report_answers total_votes [] = (None, [])"
| "fill_answers report_answers total_votes (answer # rest) =
     (case map_of report_answers (a_value answer) of
        None \<Rightarrow> (Some KeyError, answer # rest)
      | Some c \<Rightarrow>
          (let answer1 = answer\<lparr>a_total_count := c\<rparr> in
           if total_votes > 0 then
             (case percentage (a_total_count answer1) total_votes of
                Inl e \<Rightarrow> (Some e, answer1 # rest)
              | Inr p \<Rightarrow>
                  (let r = fill_answers report_answers total_votes rest
                   in (fst r, answer1\<lparr>a_total_count_percentage := p\<rparr> # snd r)))
           else
             (let r = fill_answers report_answers total_votes rest
              in (fst r, answer1\<lparr>a_total_count_percentage := Finite 0\<rparr> # snd r))))"

text \<open>
  \<^verbatim>\<open>fill_results\<close> returns the question as it leaves it, and the exception if one was
  raised. The winners are copied as they are (their decoding from UTF-8 is not modelled).
\<close>

definition fill_results :: "json_report \<Rightarrow> question \<Rightarrow> error option \<times> question" where
  "fill_results report question =
     (let question1 = question\<lparr>q_total_votes := r_ballots_count report,
              q_dirty_votes := r_dirty_ballots_count report - r_ballots_count report,
              q_winners := r_winners report\<rparr>;
          total_votes = sum_report_votes (r_answers report);
          r = fill_answers (r_answers report) total_votes (q_answers question1)
      in (fst r, question1\<lparr>q_answers := snd r\<rparr>))"

section \<open>The fields of an encoded vote, as the specification words them\<close>

text \<open>
  The specification of the decoder, in its own words: the field width is the number of
  decimal digits of the number of answers plus two; the decimal text of the encoded vote
  is padded on the left with \<open>(width - len mod width) mod width\<close> zeros; each field of
  that width is read as a number and decremented by one. These definitions are not taken
  from the code; the theorems about \<^verbatim>\<open>parse_vote\<close> compare the code with them.
\<close>

definition spec_field_width :: "question \<Rightarrow> nat" where
  "spec_field_width question = length (str_nat (length (q_answers question) + 2))"

definition spec_padded_digits :: "int \<Rightarrow> question \<Rightarrow> string" where
  "spec_padded_digits number question =
     replicate ((spec_field_width question - length (str_int number) mod spec_field_width question)
                mod spec_field_width question) CHR ''0''
     @ str_int number"

definition spec_vote_fields :: "int \<Rightarrow> question \<Rightarrow> int list" where
  "spec_vote_fields number question =
     map (\<lambda>i. int (dec_val (take (spec_field_width question)
                               (drop (i * spec_field_width question) (spec_padded_digits number question)))) - 1)
       [0 ..< length (spec_padded_digits number question) div spec_field_width question]"

text \<open>The answer values that a list of decremented fields selects.\<close>

definition selections :: "question \<Rightarrow> int list \<Rightarrow> string list" where
  "selections question fs = map (\<lambda>f. a_value (q_answers question ! nat f)) fs"

section \<open>A concrete election\<close>

text \<open>
  The question with answers A, B, C, one to two selections and a text of two lines, a
  tally object with the class's default attributes, and the tally after \<^verbatim>\<open>init\<close> and
  \<^verbatim>\<open>pre_tally\<close>.
\<close>

definition abc_question :: question where
  "abc_question =
     \<lparr>q_answers = [\<lparr>a_value = ''A'', a_total_count = 0, a_total_count_percentage = Finite 0\<rparr>,
                   \<lparr>a_value = ''B'', a_total_count = 0, a_total_count_percentage = Finite 0\<rparr>,
                   \<lparr>a_value = ''C'', a_total_count = 0, a_total_count_percentage = Finite 0\<rparr>],
      q_min = 1, q_max = 2, q_num_seats = 1, q_question = ''Who'' @ [CHR 0x0A] @ ''wins?'',
      q_total_votes = 0, q_dirty_votes = 0, q_winners = []\<rparr>"

definition new_tally :: tally where
  "new_tally = \<lparr>ballots_file = [], ballots_path = [], ballots = [],
                 answer_to_ids_dict = Map.empty, num_seats = - 1\<rparr>"

definition abc_tally :: tally where
  "abc_tally = pre_tally (init new_tally ''/tmp/x.blt'') abc_question"

text \<open>A report on ten clean ballots out of twelve, and one on no ballots at all.\<close>

definition abc_report :: json_report where
  "abc_report = \<lparr>r_ballots_count = 10, r_dirty_ballots_count = 12, r_winners = [''A''],
                  r_answers = [(''A'', 6), (''B'', 3), (''C'', 3)]\<rparr>"




section \<open>The ballot list: \<^verbatim>\<open>find_ballot\<close> and \<^verbatim>\<open>add_vote\<close>\<close>

lemma find_ballot_None: "find_ballot bs ids = None \<longleftrightarrow> (\<forall>b\<in>set bs. b_answers b \<noteq> ids)"
  by (induction bs) auto

lemma find_ballot_Some:
  "find_ballot bs ids = Some k \<Longrightarrow>
     k < length bs \<and> b_answers (bs ! k) = ids \<and> (\<forall>j<k. b_answers (bs ! j) \<noteq> ids)"
proof (induction bs arbitrary: k)
  case Nil
  then show ?case by simp
next
  case (Cons b bs)
  show ?case
  proof (cases "b_answers b = ids")
    case True
    with Cons.prems show ?thesis by simp
  next
    case False
    with Cons.prems obtain k' where k': "find_ballot bs ids = Some k'" "k = Suc k'"
      by auto
    from Cons.IH [OF k'(1)] False k'(2) show ?thesis
      by (auto simp: less_Suc_eq_0_disj)
  qed
qed

lemma find_ballot_append_new:
  "\<forall>b\<in>set bs. b_answers b \<noteq> ids \<Longrightarrow>
     find_ballot (bs @ [\<lparr>b_votes = n, b_answers = ids\<rparr>]) ids = Some (length bs)"
  by (induction bs) auto

lemma add_vote_dict: "answer_to_ids_dict (add_vote s choices) = answer_to_ids_dict s"
  by (simp add: add_vote_def Let_def split: option.splits)

lemma answer2id_add_vote: "answer2id (add_vote s choices) = answer2id s"
  by (rule ext) (simp add: answer2id_def add_vote_dict)

lemma answer2id_ballots_update: "answer2id (s\<lparr>ballots := bs\<rparr>) = answer2id s"
  by (rule ext) (simp add: answer2id_def)

lemma add_vote_file: "ballots_file (add_vote s choices) = ballots_file s"
  by (simp add: add_vote_def Let_def split: option.splits)

lemma foldl_add_vote_file: "ballots_file (foldl add_vote s votes) = ballots_file s"
  by (induction votes arbitrary: s) (simp_all add: add_vote_file)

lemma add_vote_rejected:
  "- 1 \<in> set (map (answer2id s) choices) \<Longrightarrow> add_vote s choices = s"
  by (simp add: add_vote_def)

lemma add_vote_new:
  "- 1 \<notin> set (map (answer2id s) choices) \<Longrightarrow>
   \<forall>b\<in>set (ballots s). b_answers b \<noteq> map (answer2id s) choices \<Longrightarrow>
   add_vote s choices = s\<lparr>ballots := ballots s @ [\<lparr>b_votes = 1, b_answers = map (answer2id s) choices\<rparr>]\<rparr>"
  using find_ballot_None [of "ballots s" "map (answer2id s) choices"]
  by (simp add: add_vote_def Let_def)

lemma add_vote_found:
  "- 1 \<notin> set (map (answer2id s) choices) \<Longrightarrow>
   find_ballot (ballots s) (map (answer2id s) choices) = Some k \<Longrightarrow>
   add_vote s choices =
     s\<lparr>ballots := (ballots s)[k := (ballots s ! k)\<lparr>b_votes := b_votes (ballots s ! k) + 1\<rparr>]\<rparr>"
  by (simp add: add_vote_def Let_def)

text \<open>
  Votes that all resolve, with pairwise different id lists that no ballot of the list
  holds yet, are appended one by one, each with one vote.
\<close>

lemma foldl_add_vote_distinct:
  assumes "\<forall>v\<in>set vs. - 1 \<notin> set (map (answer2id s) v)"
    and "distinct (map (\<lambda>v. map (answer2id s) v) vs)"
    and "\<forall>v\<in>set vs. \<forall>b\<in>set (ballots s). b_answers b \<noteq> map (answer2id s) v"
  shows "ballots (foldl add_vote s vs) =
           ballots s @ map (\<lambda>v. \<lparr>b_votes = 1, b_answers = map (answer2id s) v\<rparr>) vs"
  using assms
proof (induction vs arbitrary: s)
  case Nil
  then show ?case by simp
next
  case (Cons v vs)
  let ?s1 = "add_vote s v"
  have s1: "?s1 = s\<lparr>ballots := ballots s @ [\<lparr>b_votes = 1, b_answers = map (answer2id s) v\<rparr>]\<rparr>"
    using Cons.prems by (intro add_vote_new) auto
  have a: "answer2id ?s1 = answer2id s" by (rule answer2id_add_vote)
  have "ballots (foldl add_vote ?s1 vs) =
           ballots ?s1 @ map (\<lambda>v. \<lparr>b_votes = 1, b_answers = map (answer2id ?s1) v\<rparr>) vs"
  proof (rule Cons.IH)
    show "\<forall>v\<in>set vs. - 1 \<notin> set (map (answer2id ?s1) v)"
      unfolding a using Cons.prems(1) by simp
    show "distinct (map (\<lambda>v. map (answer2id ?s1) v) vs)"
      unfolding a using Cons.prems(2) by simp
    show "\<forall>v\<in>set vs. \<forall>b\<in>set (ballots ?s1). b_answers b \<noteq> map (answer2id ?s1) v"
      unfolding a using Cons.prems(2,3) by (auto simp: s1)
  qed
  then show ?case by (simp add: a) (simp add: s1)
qed

lemma distinct_under_map: "distinct (map f ys) \<Longrightarrow> distinct ys"
  by (simp add: distinct_map)

text \<open>The ids of the concrete election, and its empty ballot list.\<close>

lemma abc_ids:
  "answer2id abc_tally ''A'' = 1" "answer2id abc_tally ''B'' = 2" "answer2id abc_tally ''C'' = 3"
  "answer2id abc_tally ''Z'' = - 1" "ballots abc_tally = []"
  by (simp_all add: abc_tally_def pre_tally_def init_def new_tally_def abc_question_def answer2id_def)

subsection \<open>Grouping of equal votes\<close>

text \<open>
  Claim C1, as the code has it. \<^verbatim>\<open>find_ballot\<close> compares the id lists with \<^verbatim>\<open>==\<close>,
  and nothing sorts them, so the votes A, B and B, A of the concrete election (the
  encoded votes 12 and 21) select the same set and still make two ballots with one vote
  each.
\<close>

theorem C1_order_counterexample:
  "parse_vote 12 abc_question = Inr [''A'', ''B'']
   \<and> parse_vote 21 abc_question = Inr [''B'', ''A'']
   \<and> set [''A'', ''B''] = set [''B'', ''A'']
   \<and> set (map (answer2id abc_tally) [''A'', ''B'']) = set (map (answer2id abc_tally) [''B'', ''A''])
   \<and> ballots (add_vote (add_vote abc_tally [''A'', ''B'']) [''B'', ''A'']) =
       [\<lparr>b_votes = 1, b_answers = [1, 2]\<rparr>, \<lparr>b_votes = 1, b_answers = [2, 1]\<rparr>]"
proof -
  have "parse_vote 12 abc_question = Inr [''A'', ''B'']" by code_simp
  moreover have "parse_vote 21 abc_question = Inr [''B'', ''A'']" by code_simp
  moreover have "set [''A'', ''B''] = set [''B'', ''A'']" by auto
  moreover have "set (map (answer2id abc_tally) [''A'', ''B'']) = set (map (answer2id abc_tally) [''B'', ''A''])"
    by auto
  moreover have "ballots (add_vote (add_vote abc_tally [''A'', ''B'']) [''B'', ''A'']) =
       [\<lparr>b_votes = 1, b_answers = [1, 2]\<rparr>, \<lparr>b_votes = 1, b_answers = [2, 1]\<rparr>]"
  proof -
    let ?s1 = "add_vote abc_tally [''A'', ''B'']"
    have b1: "ballots ?s1 = [\<lparr>b_votes = 1, b_answers = [1, 2]\<rparr>]"
      by (simp add: add_vote_def abc_ids)
    have "answer2id ?s1 = answer2id abc_tally" by (rule answer2id_add_vote)
    then have "map (answer2id ?s1) [''B'', ''A''] = [2, 1]" by (simp add: abc_ids)
    then show ?thesis
      unfolding add_vote_def [of ?s1] Let_def by (simp add: b1)
  qed
  ultimately show ?thesis by blast
qed

text \<open>
  Claim C1, amended: two votes whose choices resolve to the same list of ids, in the same
  order, added to a tally that holds no ballot with that list, leave exactly one ballot
  with that list behind, with two votes, after the ballots that were there. The lists are
  compared as sequences; the ids are not put in any order first.
\<close>

theorem C1_same_sequence_grouped:
  assumes "- 1 \<notin> set (map (answer2id s) v1)"
    and "map (answer2id s) v2 = map (answer2id s) v1"
    and "\<forall>b\<in>set (ballots s). b_answers b \<noteq> map (answer2id s) v1"
  shows "ballots (add_vote (add_vote s v1) v2) =
           ballots s @ [\<lparr>b_votes = 2, b_answers = map (answer2id s) v1\<rparr>]
         \<and> length (filter (\<lambda>b. b_answers b = map (answer2id s) v1)
                     (ballots (add_vote (add_vote s v1) v2))) = 1"
proof -
  let ?ids = "map (answer2id s) v1"
  let ?s1 = "add_vote s v1"
  have s1: "?s1 = s\<lparr>ballots := ballots s @ [\<lparr>b_votes = 1, b_answers = ?ids\<rparr>]\<rparr>"
    using assms(1,3) by (rule add_vote_new)
  have ids2: "map (answer2id ?s1) v2 = ?ids"
    by (simp add: answer2id_add_vote assms(2))
  have f: "find_ballot (ballots ?s1) (map (answer2id ?s1) v2) = Some (length (ballots s))"
    unfolding ids2 using assms(3) by (simp add: s1 find_ballot_append_new)
  have "- 1 \<notin> set (map (answer2id ?s1) v2)"
    unfolding ids2 using assms(1) .
  from add_vote_found [OF this f]
  have b: "ballots (add_vote ?s1 v2) = ballots s @ [\<lparr>b_votes = 2, b_answers = ?ids\<rparr>]"
    by (simp add: s1)
  have "filter (\<lambda>b. b_answers b = ?ids) (ballots s) = []"
    using assms(3) by (simp add: filter_empty_conv)
  then have "length (filter (\<lambda>b. b_answers b = ?ids) (ballots (add_vote ?s1 v2))) = 1"
    by (simp add: b)
  with b show ?thesis by simp
qed

theorem C1_witness:
  "ballots (add_vote (add_vote abc_tally [''A'', ''B'']) [''A'', ''B'']) =
     [\<lparr>b_votes = 2, b_answers = [1, 2]\<rparr>]"
proof -
  have h1: "- 1 \<notin> set (map (answer2id abc_tally) [''A'', ''B''])"
    by (simp add: abc_ids)
  have h2: "map (answer2id abc_tally) [''A'', ''B''] = map (answer2id abc_tally) [''A'', ''B'']"
    by simp
  have h3: "\<forall>b\<in>set (ballots abc_tally). b_answers b \<noteq> map (answer2id abc_tally) [''A'', ''B'']"
    by (simp add: abc_ids)
  from C1_same_sequence_grouped [OF h1 h2 h3] show ?thesis
    by (simp add: abc_ids)
qed

subsection \<open>Votes with a choice that has no id\<close>

text \<open>
  Claim C5: when one of the choices of a vote is not a key of \<open>answer_to_ids_dict\<close>,
  so that \<^verbatim>\<open>answer2id\<close> gives -1 for it, \<^verbatim>\<open>add_vote\<close> returns the tally as it was:
  no ballot is added or counted up, whatever the other choices are.
\<close>

theorem C5_unresolved_choice_discards_vote:
  "\<exists>c\<in>set choices. answer_to_ids_dict s c = None \<Longrightarrow> add_vote s choices = s"
proof -
  assume "\<exists>c\<in>set choices. answer_to_ids_dict s c = None"
  then obtain c where "c \<in> set choices" "answer2id s c = - 1"
    by (auto simp: answer2id_def)
  then have "- 1 \<in> set (map (answer2id s) choices)"
    by force
  then show ?thesis by (rule add_vote_rejected)
qed

theorem C5_witness:
  "answer_to_ids_dict abc_tally ''Z'' = None \<and> add_vote abc_tally [''A'', ''Z''] = abc_tally"
proof -
  have h: "answer_to_ids_dict abc_tally ''Z'' = None"
    by (simp add: abc_tally_def pre_tally_def init_def new_tally_def abc_question_def)
  then have "\<exists>c\<in>set [''A'', ''Z'']. answer_to_ids_dict abc_tally c = None" by simp
  from C5_unresolved_choice_discards_vote [OF this] h show ?thesis by simp
qed

subsection \<open>Votes that differ pairwise\<close>

text \<open>
  Claim C9: start from a tally without ballots and take votes whose choices all have ids
  and whose sets of ids differ pairwise. Added in any order (\<open>votes'\<close> is any
  rearrangement of \<open>votes\<close>), they give one ballot per vote, each with one vote, so the
  number of ballots is the number of votes whatever the order.
\<close>

theorem C9_distinct_votes_counted_once:
  assumes "ballots s = []"
    and "\<forall>v\<in>set votes. - 1 \<notin> set (map (answer2id s) v)"
    and "distinct (map (\<lambda>v. set (map (answer2id s) v)) votes)"
    and "mset votes' = mset votes"
  shows "ballots (foldl add_vote s votes') =
           map (\<lambda>v. \<lparr>b_votes = 1, b_answers = map (answer2id s) v\<rparr>) votes'
         \<and> length (ballots (foldl add_vote s votes')) = length votes
         \<and> (\<forall>b\<in>set (ballots (foldl add_vote s votes')). b_votes b = 1)"
proof -
  have "distinct (map set (map (map (answer2id s)) votes))"
    using assms(3) by (simp add: comp_def)
  then have "distinct (map (map (answer2id s)) votes)"
    by (rule distinct_under_map)
  moreover have "mset (map (map (answer2id s)) votes') = mset (map (map (answer2id s)) votes)"
    using assms(4) by simp
  ultimately have d: "distinct (map (\<lambda>v. map (answer2id s) v) votes')"
    using mset_eq_imp_distinct_iff by blast
  have "set votes' = set votes"
    using assms(4) by (rule mset_eq_setD)
  then have r: "\<forall>v\<in>set votes'. - 1 \<notin> set (map (answer2id s) v)"
    using assms(2) by simp
  have e: "\<forall>v\<in>set votes'. \<forall>b\<in>set (ballots s). b_answers b \<noteq> map (answer2id s) v"
    by (simp add: assms(1))
  have b: "ballots (foldl add_vote s votes') =
           map (\<lambda>v. \<lparr>b_votes = 1, b_answers = map (answer2id s) v\<rparr>) votes'"
    using foldl_add_vote_distinct [OF r d e] by (simp add: assms(1))
  have "length votes' = length votes"
    using assms(4) by (rule mset_eq_length)
  with b show ?thesis by auto
qed

theorem C9_witness:
  "ballots (foldl add_vote abc_tally [[''A'', ''B''], [''B''], [''A'']]) =
     [\<lparr>b_votes = 1, b_answers = [1, 2]\<rparr>, \<lparr>b_votes = 1, b_answers = [2]\<rparr>, \<lparr>b_votes = 1, b_answers = [1]\<rparr>]
   \<and> length (ballots (foldl add_vote abc_tally [[''A'', ''B''], [''B''], [''A'']])) = 3"
proof -
  have h1: "ballots abc_tally = []" by (simp add: abc_ids)
  have h2: "\<forall>v\<in>set [[''A''], [''B''], [''A'', ''B'']]. - 1 \<notin> set (map (answer2id abc_tally) v)"
    by (simp add: abc_ids)
  have h3: "distinct (map (\<lambda>v. set (map (answer2id abc_tally) v)) [[''A''], [''B''], [''A'', ''B'']])"
    by (simp add: abc_ids)
  have h4: "mset [[''A'', ''B''], [''B''], [''A'']] = mset [[''A''], [''B''], [''A'', ''B'']]"
    by simp
  from C9_distinct_votes_counted_once [OF h1 h2 h3 h4] show ?thesis
    by (simp add: abc_ids)
qed

subsection \<open>What \<^verbatim>\<open>add_vote\<close> changes\<close>

text \<open>
  Claim C10: for a vote whose choices all have ids, \<^verbatim>\<open>add_vote\<close> changes the tally in
  one of two ways. If some ballot has the vote's id list, there is a position \<open>k\<close> with
  that list where only the votes go up by one: the list keeps its length and every other
  position keeps its ballot. If no ballot has the list, one ballot with one vote and that
  list is appended to the unchanged ballots. Nothing but the ballot list changes; the
  dictionary of ids in particular stays as it was.
\<close>

theorem C10_add_vote_frame:
  assumes "- 1 \<notin> set (map (answer2id s) choices)"
  shows "((\<exists>b\<in>set (ballots s). b_answers b = map (answer2id s) choices) \<longrightarrow>
            (\<exists>k<length (ballots s).
               b_answers (ballots s ! k) = map (answer2id s) choices
               \<and> length (ballots (add_vote s choices)) = length (ballots s)
               \<and> ballots (add_vote s choices) ! k =
                    (ballots s ! k)\<lparr>b_votes := b_votes (ballots s ! k) + 1\<rparr>
               \<and> (\<forall>j<length (ballots s). j \<noteq> k \<longrightarrow> ballots (add_vote s choices) ! j = ballots s ! j)))
         \<and> ((\<forall>b\<in>set (ballots s). b_answers b \<noteq> map (answer2id s) choices) \<longrightarrow>
              ballots (add_vote s choices) =
                ballots s @ [\<lparr>b_votes = 1, b_answers = map (answer2id s) choices\<rparr>])
         \<and> add_vote s choices = s\<lparr>ballots := ballots (add_vote s choices)\<rparr>
         \<and> answer_to_ids_dict (add_vote s choices) = answer_to_ids_dict s"
proof (cases "find_ballot (ballots s) (map (answer2id s) choices)")
  case None
  then have n: "\<forall>b\<in>set (ballots s). b_answers b \<noteq> map (answer2id s) choices"
    by (simp add: find_ballot_None)
  from add_vote_new [OF assms n] n show ?thesis
    by (auto simp: add_vote_dict)
next
  case (Some k)
  note f = find_ballot_Some [OF Some]
  have a: "add_vote s choices =
     s\<lparr>ballots := (ballots s)[k := (ballots s ! k)\<lparr>b_votes := b_votes (ballots s ! k) + 1\<rparr>]\<rparr>"
    using assms Some by (rule add_vote_found)
  have c2: "\<not> (\<forall>b\<in>set (ballots s). b_answers b \<noteq> map (answer2id s) choices)"
    using f by (metis nth_mem)
  have c1: "\<exists>k<length (ballots s).
               b_answers (ballots s ! k) = map (answer2id s) choices
               \<and> length (ballots (add_vote s choices)) = length (ballots s)
               \<and> ballots (add_vote s choices) ! k =
                    (ballots s ! k)\<lparr>b_votes := b_votes (ballots s ! k) + 1\<rparr>
               \<and> (\<forall>j<length (ballots s). j \<noteq> k \<longrightarrow> ballots (add_vote s choices) ! j = ballots s ! j)"
    using f by (intro exI [of _ k]) (simp add: a)
  have c3: "add_vote s choices = s\<lparr>ballots := ballots (add_vote s choices)\<rparr>"
    by (simp add: a)
  have c4: "answer_to_ids_dict (add_vote s choices) = answer_to_ids_dict s"
    by (rule add_vote_dict)
  from c1 c2 c3 c4 show ?thesis by blast
qed

theorem C10_witness:
  "ballots (add_vote (add_vote abc_tally [''A'']) [''A'']) = [\<lparr>b_votes = 2, b_answers = [1]\<rparr>]
   \<and> ballots (add_vote (add_vote abc_tally [''A'']) [''B'']) =
       [\<lparr>b_votes = 1, b_answers = [1]\<rparr>, \<lparr>b_votes = 1, b_answers = [2]\<rparr>]"
proof -
  let ?s = "add_vote abc_tally [''A'']"
  have s: "ballots ?s = [\<lparr>b_votes = 1, b_answers = [1]\<rparr>]"
    by (simp add: add_vote_def abc_ids)
  have ids: "answer2id ?s = answer2id abc_tally" by (rule answer2id_add_vote)
  have h1: "- 1 \<notin> set (map (answer2id ?s) [''A''])" by (simp add: ids abc_ids)
  have h2: "- 1 \<notin> set (map (answer2id ?s) [''B''])" by (simp add: ids abc_ids)
  from C10_add_vote_frame [OF h1] have "ballots (add_vote ?s [''A'']) = [\<lparr>b_votes = 2, b_answers = [1]\<rparr>]"
    by (simp add: s ids abc_ids list_eq_iff_nth_eq)
  moreover from C10_add_vote_frame [OF h2] have "ballots (add_vote ?s [''B'']) =
       [\<lparr>b_votes = 1, b_answers = [1]\<rparr>, \<lparr>b_votes = 1, b_answers = [2]\<rparr>]"
    by (simp add: s ids abc_ids)
  ultimately show ?thesis by simp
qed

section \<open>The dictionary of ids\<close>

lemma fill_answer_to_ids_other:
  "v \<notin> set (map a_value as) \<Longrightarrow> fill_answer_to_ids d i as v = d v"
  by (induction as arbitrary: d i) auto

lemma fill_answer_to_ids_nth:
  "distinct (map a_value as) \<Longrightarrow> k < length as \<Longrightarrow>
     fill_answer_to_ids d i as (a_value (as ! k)) = Some (i + int k)"
proof (induction as arbitrary: d i k)
  case Nil
  then show ?case by simp
next
  case (Cons a as)
  show ?case
  proof (cases k)
    case 0
    with Cons.prems show ?thesis by (simp add: fill_answer_to_ids_other)
  next
    case (Suc k')
    with Cons.prems have "fill_answer_to_ids (d(a_value a \<mapsto> i)) (i + 1) as (a_value (as ! k')) = Some (i + 1 + int k')"
      by (intro Cons.IH) auto
    with Suc show ?thesis by simp
  qed
qed

text \<open>
  Claim C6: after \<^verbatim>\<open>init\<close> and \<^verbatim>\<open>pre_tally\<close> on a question whose answer values are
  distinct (the data model's invariant), the answer at position \<open>k\<close>, counted from zero,
  has the id \<open>k + 1\<close>: the ids are 1 to N in answer order. A value that is not the value
  of any answer has the id -1, which is none of these ids; this part needs no
  distinctness.
\<close>

theorem C6_answer_index:
  "(distinct (map a_value (q_answers q)) \<longrightarrow>
      (\<forall>k<length (q_answers q).
         answer2id (pre_tally (init s path) q) (a_value (q_answers q ! k)) = int k + 1))
   \<and> (\<forall>v. v \<notin> set (map a_value (q_answers q)) \<longrightarrow> answer2id (pre_tally (init s path) q) v = - 1)"
  by (simp add: answer2id_def pre_tally_def init_def fill_answer_to_ids_nth fill_answer_to_ids_other)

theorem C6_witness:
  "answer2id abc_tally ''A'' = 1 \<and> answer2id abc_tally ''B'' = 2 \<and> answer2id abc_tally ''C'' = 3
   \<and> answer2id abc_tally ''D'' = - 1"
proof -
  have d: "distinct (map a_value (q_answers abc_question))"
    by (simp add: abc_question_def)
  have n: "''D'' \<notin> set (map a_value (q_answers abc_question))"
    by (simp add: abc_question_def)
  note t = C6_answer_index [of abc_question new_tally "''/tmp/x.blt''", folded abc_tally_def]
  from t d have "\<forall>k<length (q_answers abc_question).
         answer2id abc_tally (a_value (q_answers abc_question ! k)) = int k + 1" by blast
  then have "\<forall>k<3. answer2id abc_tally (a_value (q_answers abc_question ! k)) = int k + 1"
    by (simp add: abc_question_def)
  then have "answer2id abc_tally (a_value (q_answers abc_question ! 0)) = int 0 + 1"
    "answer2id abc_tally (a_value (q_answers abc_question ! 1)) = int 1 + 1"
    "answer2id abc_tally (a_value (q_answers abc_question ! 2)) = int 2 + 1"
    by simp_all
  moreover from t n have "answer2id abc_tally ''D'' = - 1" by blast
  ultimately show ?thesis by (simp add: abc_question_def)
qed

section \<open>The ballots file\<close>

lemma foldl_file_write:
  "foldl (\<lambda>t x. file_write t (f x)) s xs = s\<lparr>ballots_file := ballots_file s @ concat (map f xs)\<rparr>"
  by (induction xs arbitrary: s) (simp_all add: file_write_def)

lemma str_int_small: "str_int 0 = ''0''" "str_int 1 = ''1''" "str_int 2 = ''2''" "str_int 3 = ''3''"
  by code_simp+

text \<open>
  Claim C4: the text of the file after \<^verbatim>\<open>pre_tally\<close>, any votes, and
  \<^verbatim>\<open>finish_writing_ballots_file\<close>. In this order: the header line with the number of
  answers and the seats; for each ballot of the list, in list order, a line with the
  votes, a space, the ids separated by spaces, a space and the 0 that ends the ballot;
  a line with 0 alone; for each answer, in answer order, its value between double
  quotes; the question's text without its newlines between double quotes. Every line
  ends with a newline.
\<close>

theorem C4_ballots_file_text:
  "ballots_file (finish_writing_ballots_file (foldl add_vote (pre_tally s q) votes) q) =
     str_int (int (length (q_answers q))) @ '' '' @ str_int (q_num_seats q) @ [CHR 0x0A]
     @ concat (map (\<lambda>b. str_int (b_votes b) @ '' '' @ join '' '' (map str_int (b_answers b)) @ '' 0'' @ [CHR 0x0A])
          (ballots (foldl add_vote (pre_tally s q) votes)))
     @ ''0'' @ [CHR 0x0A]
     @ concat (map (\<lambda>a. [CHR 0x22] @ a_value a @ [CHR 0x22] @ [CHR 0x0A]) (q_answers q))
     @ [CHR 0x22] @ filter (\<lambda>c. c \<noteq> CHR 0x0A) (q_question q) @ [CHR 0x22] @ [CHR 0x0A]"
proof -
  have "ballots_file (foldl add_vote (pre_tally s q) votes) =
          str_int (int (length (q_answers q))) @ '' '' @ str_int (q_num_seats q) @ [CHR 0x0A]"
    by (simp add: foldl_add_vote_file pre_tally_def)
  then show ?thesis
    unfolding finish_writing_ballots_file_def Let_def foldl_file_write
    by (simp add: file_write_def)
qed

text \<open>
  The file of the concrete election after the votes A B, A, and A B again. The newline of
  the question's text is gone.
\<close>

theorem C4_witness:
  "ballots_file (finish_writing_ballots_file
       (foldl add_vote abc_tally [[''A'', ''B''], [''A''], [''A'', ''B'']]) abc_question) =
     ''3 1'' @ [CHR 0x0A] @ ''2 1 2 0'' @ [CHR 0x0A] @ ''1 1 0'' @ [CHR 0x0A] @ ''0'' @ [CHR 0x0A]
     @ [CHR 0x22] @ ''A'' @ [CHR 0x22, CHR 0x0A] @ [CHR 0x22] @ ''B'' @ [CHR 0x22, CHR 0x0A]
     @ [CHR 0x22] @ ''C'' @ [CHR 0x22, CHR 0x0A] @ [CHR 0x22] @ ''Whowins?'' @ [CHR 0x22, CHR 0x0A]"
proof -
  have b: "ballots (foldl add_vote abc_tally [[''A'', ''B''], [''A''], [''A'', ''B'']]) =
             [\<lparr>b_votes = 2, b_answers = [1, 2]\<rparr>, \<lparr>b_votes = 1, b_answers = [1]\<rparr>]"
    by (simp add: add_vote_def abc_ids answer2id_ballots_update)
  have q: "q_answers abc_question =
             [\<lparr>a_value = ''A'', a_total_count = 0, a_total_count_percentage = Finite 0\<rparr>,
              \<lparr>a_value = ''B'', a_total_count = 0, a_total_count_percentage = Finite 0\<rparr>,
              \<lparr>a_value = ''C'', a_total_count = 0, a_total_count_percentage = Finite 0\<rparr>]"
    "q_num_seats abc_question = 1" "q_question abc_question = ''Who'' @ [CHR 0x0A] @ ''wins?''"
    by (simp_all add: abc_question_def)
  show ?thesis
    using C4_ballots_file_text [of "init new_tally ''/tmp/x.blt''" abc_question
        "[[''A'', ''B''], [''A''], [''A'', ''B'']]", folded abc_tally_def]
    unfolding b q by (simp add: str_int_small)
qed

section \<open>Decimal text\<close>

text \<open>
  The text of a number that is not negative has digits only and at least one of them, and
  \<^verbatim>\<open>int\<close> reads a text of digits without raising.
\<close>

lemma is_digit_digit_char: "d < 10 \<Longrightarrow> is_digit (digit_char d)"
  by (simp add: is_digit_def digit_char_def)

lemma is_digit_zero: "is_digit CHR ''0''"
  by (simp add: is_digit_def)

lemma is_digit_not_minus: "is_digit c \<Longrightarrow> c \<noteq> CHR ''-''"
  by (auto simp: is_digit_def)

lemma str_nat_digits: "list_all is_digit (str_nat n)"
proof (induction n rule: str_nat.induct)
  case (1 n)
  show ?case
  proof (cases "n < 10")
    case True
    then show ?thesis by (simp add: str_nat.simps [of n] is_digit_digit_char)
  next
    case False
    with 1 show ?thesis by (simp add: str_nat.simps [of n] is_digit_digit_char)
  qed
qed

lemma str_nat_nonempty: "str_nat n \<noteq> []"
  by (simp add: str_nat.simps [of n])

lemma str_int_nonneg: "0 \<le> i \<Longrightarrow> str_int i = str_nat (nat i)"
  by (simp add: str_int_def)

lemma py_int_digits: "s \<noteq> [] \<Longrightarrow> list_all is_digit s \<Longrightarrow> py_int s = Inr (int (dec_val s))"
  by (cases s) (auto simp: py_int_def dest: is_digit_not_minus)

lemma tab_size_of_field_width: "tab_size_of q = spec_field_width q"
proof -
  have "int (length (q_answers q)) + 2 = int (length (q_answers q) + 2)" by simp
  then show ?thesis
    unfolding tab_size_of_def spec_field_width_def by (simp only: str_int_nonneg of_nat_0_le_iff nat_int)
qed

lemma field_width_pos: "0 < spec_field_width q"
  by (simp add: spec_field_width_def str_nat_nonempty)

lemma add_zeros_padded:
  "add_zeros (spec_field_width q) (str_int n) = spec_padded_digits n q"
  by (simp add: add_zeros_def spec_padded_digits_def)

lemma padded_digits_length: "length (spec_padded_digits n q) mod spec_field_width q = 0"
proof -
  let ?w = "spec_field_width q"
  let ?l = "length (str_int n)"
  have w: "0 < ?w" by (rule field_width_pos)
  show ?thesis
  proof (cases "?l mod ?w = 0")
    case True
    then show ?thesis by (simp add: spec_padded_digits_def)
  next
    case False
    have "?l mod ?w < ?w" using w by simp
    then have "(?w - ?l mod ?w) mod ?w = ?w - ?l mod ?w" using False by simp
    then have "length (spec_padded_digits n q) = (?w - ?l mod ?w) + ?l"
      by (simp add: spec_padded_digits_def)
    also have "\<dots> = ?w + (?l - ?l mod ?w)"
      using \<open>?l mod ?w < ?w\<close> by (simp add: mod_less_eq_dividend)
    also have "\<dots> mod ?w = 0"
      by (simp add: minus_mod_eq_mult_div)
    finally show ?thesis .
  qed
qed

lemma padded_digits_all_digits: "0 \<le> n \<Longrightarrow> list_all is_digit (spec_padded_digits n q)"
  using str_nat_digits [of "nat n"]
  by (auto simp: spec_padded_digits_def str_int_nonneg list_all_iff is_digit_zero)

lemma field_digits:
  assumes "list_all is_digit p" "0 < w" "i < length p div w"
  shows "take w (drop (i * w) p) \<noteq> [] \<and> list_all is_digit (take w (drop (i * w) p))"
proof -
  have "Suc i * w \<le> length p"
    using assms(2,3) by (simp add: less_eq_div_iff_mult_less_eq [symmetric] Suc_le_eq del: mult_Suc)
  then have "i * w < length p" using assms(2) by simp
  then have "take w (drop (i * w) p) \<noteq> []" using assms(2) by simp
  moreover have "set (take w (drop (i * w) p)) \<subseteq> set p"
    by (meson set_drop_subset set_take_subset subset_trans)
  then have "list_all is_digit (take w (drop (i * w) p))"
    using assms(1) by (auto simp: list_all_iff)
  ultimately show ?thesis by simp
qed

section \<open>\<^verbatim>\<open>parse_vote\<close> and the fields of the specification\<close>

text \<open>
  On fields that are texts of digits the loop of \<^verbatim>\<open>parse_vote\<close> raises at the first
  field that is out of range after the decrement, and otherwise appends the values of all
  the fields in order.
\<close>

lemma parse_fields_digits:
  assumes "\<forall>i\<in>set is. take w (drop (i * w) p) \<noteq> [] \<and> list_all is_digit (take w (drop (i * w) p))"
  shows "parse_fields q p w is ret =
    (if \<exists>i\<in>set is. int (dec_val (take w (drop (i * w) p))) - 1 < 0
                    \<or> int (length (q_answers q)) \<le> int (dec_val (take w (drop (i * w) p))) - 1
     then Inl Exception
     else Inr (ret @ selections q (map (\<lambda>i. int (dec_val (take w (drop (i * w) p))) - 1) is)))"
  using assms
proof (induction "is" arbitrary: ret)
  case Nil
  then show ?case by (simp add: selections_def)
next
  case (Cons i "is")
  have f: "py_int (slice p (i * w) ((i + 1) * w)) = Inr (int (dec_val (take w (drop (i * w) p))))"
    using Cons.prems by (simp add: slice_def py_int_digits)
  have r: "\<forall>i\<in>set is. take w (drop (i * w) p) \<noteq> [] \<and> list_all is_digit (take w (drop (i * w) p))"
    using Cons.prems by simp
  show ?case
    unfolding parse_fields.simps f
    by (auto simp: Cons.IH [OF r] Let_def selections_def)
qed

text \<open>
  \<^verbatim>\<open>parse_vote\<close> in full, for a number that is not negative: the fields first, then the
  number of selections against \<^verbatim>\<open>min\<close> and \<^verbatim>\<open>max\<close>, then the repeated values.
\<close>

lemma parse_vote_fields:
  assumes "0 \<le> number"
  shows "parse_vote number q =
    (if \<exists>f\<in>set (spec_vote_fields number q). f < 0 \<or> int (length (q_answers q)) \<le> f
     then Inl Exception
     else if int (length (spec_vote_fields number q)) < q_min q
             \<or> q_max q < int (length (spec_vote_fields number q))
             \<or> \<not> distinct (selections q (spec_vote_fields number q))
          then Inl Exception
          else Inr (selections q (spec_vote_fields number q)))"
proof -
  let ?w = "spec_field_width q"
  let ?p = "spec_padded_digits number q"
  have d: "\<forall>i\<in>set [0 ..< length ?p div ?w].
             take ?w (drop (i * ?w) ?p) \<noteq> [] \<and> list_all is_digit (take ?w (drop (i * ?w) ?p))"
    using field_digits [OF padded_digits_all_digits [OF assms] field_width_pos] by simp
  have pf: "parse_fields q ?p ?w [0 ..< length ?p div ?w] [] =
    (if \<exists>f\<in>set (spec_vote_fields number q). f < 0 \<or> int (length (q_answers q)) \<le> f
     then Inl Exception else Inr (selections q (spec_vote_fields number q)))"
    unfolding parse_fields_digits [OF d] by (auto simp: spec_vote_fields_def)
  have l: "length (selections q (spec_vote_fields number q)) = length (spec_vote_fields number q)"
    by (simp add: selections_def)
  have c: "card (set (selections q (spec_vote_fields number q))) \<noteq> length (spec_vote_fields number q)
             \<longleftrightarrow> \<not> distinct (selections q (spec_vote_fields number q))"
    using card_distinct [of "selections q (spec_vote_fields number q)"]
      distinct_card [of "selections q (spec_vote_fields number q)"] unfolding l by blast
  have "parse_vote number q =
     (case parse_fields q ?p ?w [0 ..< length ?p div ?w] [] of
           Inl e \<Rightarrow> Inl e
         | Inr ret \<Rightarrow>
             if int (length ret) < q_min q \<or> int (length ret) > q_max q
                \<or> card (set ret) \<noteq> length ret
             then Inl Exception
             else Inr ret)"
    unfolding parse_vote_def Let_def tab_size_of_field_width add_zeros_padded ..
  also have "\<dots> =
    (if \<exists>f\<in>set (spec_vote_fields number q). f < 0 \<or> int (length (q_answers q)) \<le> f
     then Inl Exception
     else if int (length (spec_vote_fields number q)) < q_min q
             \<or> q_max q < int (length (spec_vote_fields number q))
             \<or> \<not> distinct (selections q (spec_vote_fields number q))
          then Inl Exception
          else Inr (selections q (spec_vote_fields number q)))"
    unfolding pf by (simp add: l c)
  finally show ?thesis .
qed

lemma abc_fields:
  "spec_vote_fields 12 abc_question = [0, 1]" "spec_vote_fields 11 abc_question = [0, 0]"
  "spec_vote_fields 44 abc_question = [3, 3]" "spec_vote_fields 123 abc_question = [0, 1, 2]"
  by code_simp+

lemma abc_question_simps:
  "length (q_answers abc_question) = 3" "q_min abc_question = 1" "q_max abc_question = 2"
  "selections abc_question [0, 1] = [''A'', ''B'']"
  "selections abc_question [0, 0] = [''A'', ''A'']"
  "selections abc_question [0, 1, 2] = [''A'', ''B'', ''C'']"
  by (simp_all add: abc_question_def selections_def)

subsection \<open>Fields out of range\<close>

text \<open>
  Claim C2, as the code has it. The encoded vote 11 of the concrete election has the two
  fields 0 and 0 after the decrement: neither is negative or reaches the three answers.
  \<^verbatim>\<open>parse_vote\<close> raises all the same, because the value A is selected twice.
\<close>

theorem C2_valid_fields_counterexample:
  "spec_vote_fields 11 abc_question = [0, 0]
   \<and> length (q_answers abc_question) = 3
   \<and> \<not> (\<exists>f\<in>set (spec_vote_fields 11 abc_question). f < 0 \<or> int (length (q_answers abc_question)) \<le> f)
   \<and> parse_vote 11 abc_question = Inl Exception"
proof -
  have "parse_vote 11 abc_question = Inl Exception" by code_simp
  then show ?thesis by (simp add: abc_fields abc_question_simps)
qed

text \<open>
  Claim C2, amended. For an encoded vote that is not negative, \<^verbatim>\<open>parse_vote\<close> works with
  the width and the padded text of the specification, and the padded text is a whole
  number of fields. It raises exactly when some decremented field is negative or at least
  the number of answers, or the number of selections is below \<^verbatim>\<open>min\<close> or above
  \<^verbatim>\<open>max\<close>, or two selections have the same value. A field out of range makes it raise
  whatever the other fields are. When it does not raise, it returns the value of the
  answer at each decremented field, in the order of the fields.
\<close>

theorem C2_decode_fields:
  assumes "0 \<le> number"
  shows "tab_size_of q = spec_field_width q
     \<and> add_zeros (tab_size_of q) (str_int number) = spec_padded_digits number q
     \<and> length (spec_padded_digits number q) mod spec_field_width q = 0
     \<and> ((\<exists>e. parse_vote number q = Inl e) \<longleftrightarrow>
          (\<exists>f\<in>set (spec_vote_fields number q). f < 0 \<or> int (length (q_answers q)) \<le> f)
          \<or> int (length (spec_vote_fields number q)) < q_min q
          \<or> q_max q < int (length (spec_vote_fields number q))
          \<or> \<not> distinct (selections q (spec_vote_fields number q)))
     \<and> ((\<exists>f\<in>set (spec_vote_fields number q). f < 0 \<or> int (length (q_answers q)) \<le> f) \<longrightarrow>
          parse_vote number q = Inl Exception)
     \<and> ((\<forall>e. parse_vote number q \<noteq> Inl e) \<longrightarrow>
          parse_vote number q = Inr (selections q (spec_vote_fields number q)))"
proof -
  have 1: "tab_size_of q = spec_field_width q" by (rule tab_size_of_field_width)
  have 2: "add_zeros (tab_size_of q) (str_int number) = spec_padded_digits number q"
    unfolding 1 by (rule add_zeros_padded)
  have 3: "length (spec_padded_digits number q) mod spec_field_width q = 0" by (rule padded_digits_length)
  note p = parse_vote_fields [OF assms, of q]
  have 4: "(\<exists>e. parse_vote number q = Inl e) \<longleftrightarrow>
          (\<exists>f\<in>set (spec_vote_fields number q). f < 0 \<or> int (length (q_answers q)) \<le> f)
          \<or> int (length (spec_vote_fields number q)) < q_min q
          \<or> q_max q < int (length (spec_vote_fields number q))
          \<or> \<not> distinct (selections q (spec_vote_fields number q))"
    unfolding p by (simp split: if_splits)
  have 5: "(\<exists>f\<in>set (spec_vote_fields number q). f < 0 \<or> int (length (q_answers q)) \<le> f) \<longrightarrow>
          parse_vote number q = Inl Exception"
    unfolding p by simp
  have 6: "(\<forall>e. parse_vote number q \<noteq> Inl e) \<longrightarrow>
          parse_vote number q = Inr (selections q (spec_vote_fields number q))"
    unfolding p by (simp split: if_splits)
  from 1 2 3 4 5 6 show ?thesis by blast
qed

theorem C2_witness:
  "parse_vote 12 abc_question = Inr [''A'', ''B'']
   \<and> parse_vote 44 abc_question = Inl Exception
   \<and> parse_vote 11 abc_question = Inl Exception"
proof -
  have h: "(0::int) \<le> 12" "(0::int) \<le> 44" "(0::int) \<le> 11" by simp_all
  have "\<exists>e. parse_vote 11 abc_question = Inl e"
    using C2_decode_fields [OF h(3), of abc_question]
    by (simp add: abc_fields abc_question_simps)
  moreover have "parse_vote 44 abc_question = Inl Exception"
    using C2_decode_fields [OF h(2), of abc_question]
    by (simp add: abc_fields abc_question_simps)
  moreover have "parse_vote 12 abc_question = Inr [''A'', ''B'']"
    using C2_decode_fields [OF h(1), of abc_question]
    by (simp add: abc_fields abc_question_simps)
  moreover have "parse_vote 11 abc_question = Inl Exception" by code_simp
  ultimately show ?thesis by simp
qed

subsection \<open>The number of selections and repeated selections\<close>

text \<open>
  Claim C3: when every decremented field of an encoded vote that is not negative is the
  position of an answer, \<^verbatim>\<open>parse_vote\<close> raises exactly when the number of selections is
  below \<^verbatim>\<open>min\<close> or above \<^verbatim>\<open>max\<close>, or the selections are not pairwise distinct.
  Otherwise it returns the selections of all the fields, in order: one for every field
  of the padded text.
\<close>

theorem C3_count_and_distinct:
  assumes "0 \<le> number"
    and "\<forall>f\<in>set (spec_vote_fields number q). 0 \<le> f \<and> f < int (length (q_answers q))"
  shows "((\<exists>e. parse_vote number q = Inl e) \<longleftrightarrow>
            int (length (selections q (spec_vote_fields number q))) < q_min q
            \<or> q_max q < int (length (selections q (spec_vote_fields number q)))
            \<or> \<not> distinct (selections q (spec_vote_fields number q)))
     \<and> ((\<forall>e. parse_vote number q \<noteq> Inl e) \<longrightarrow>
            parse_vote number q = Inr (selections q (spec_vote_fields number q)))
     \<and> length (selections q (spec_vote_fields number q)) =
          length (spec_padded_digits number q) div spec_field_width q"
proof -
  have n: "\<not> (\<exists>f\<in>set (spec_vote_fields number q). f < 0 \<or> int (length (q_answers q)) \<le> f)"
    using assms(2) by auto
  have l: "length (selections q (spec_vote_fields number q)) = length (spec_vote_fields number q)"
    by (simp add: selections_def)
  have p: "parse_vote number q =
     (if int (length (spec_vote_fields number q)) < q_min q
             \<or> q_max q < int (length (spec_vote_fields number q))
             \<or> \<not> distinct (selections q (spec_vote_fields number q))
          then Inl Exception
          else Inr (selections q (spec_vote_fields number q)))"
    unfolding parse_vote_fields [OF assms(1), of q] using n by simp
  have 1: "(\<exists>e. parse_vote number q = Inl e) \<longleftrightarrow>
            int (length (selections q (spec_vote_fields number q))) < q_min q
            \<or> q_max q < int (length (selections q (spec_vote_fields number q)))
            \<or> \<not> distinct (selections q (spec_vote_fields number q))"
    unfolding p l by (simp split: if_splits)
  have 2: "(\<forall>e. parse_vote number q \<noteq> Inl e) \<longrightarrow>
            parse_vote number q = Inr (selections q (spec_vote_fields number q))"
    unfolding p by (simp split: if_splits)
  have 3: "length (selections q (spec_vote_fields number q)) =
          length (spec_padded_digits number q) div spec_field_width q"
    unfolding l by (simp add: spec_vote_fields_def)
  from 1 2 3 show ?thesis by blast
qed

theorem C3_witness:
  "parse_vote 12 abc_question = Inr [''A'', ''B'']
   \<and> (\<exists>e. parse_vote 123 abc_question = Inl e)
   \<and> (\<exists>e. parse_vote 11 abc_question = Inl e)"
proof -
  have h: "(0::int) \<le> 12" "(0::int) \<le> 123" "(0::int) \<le> 11" by simp_all
  have v1: "\<forall>f\<in>set (spec_vote_fields 12 abc_question). 0 \<le> f \<and> f < int (length (q_answers abc_question))"
    by (simp add: abc_fields abc_question_simps)
  have v2: "\<forall>f\<in>set (spec_vote_fields 123 abc_question). 0 \<le> f \<and> f < int (length (q_answers abc_question))"
    by (simp add: abc_fields abc_question_simps)
  have v3: "\<forall>f\<in>set (spec_vote_fields 11 abc_question). 0 \<le> f \<and> f < int (length (q_answers abc_question))"
    by (simp add: abc_fields abc_question_simps)
  have "parse_vote 12 abc_question = Inr [''A'', ''B'']"
    using C3_count_and_distinct [OF h(1) v1]
    by (simp add: abc_fields abc_question_simps)
  moreover have "\<exists>e. parse_vote 123 abc_question = Inl e"
    using C3_count_and_distinct [OF h(2) v2]
    by (simp add: abc_fields abc_question_simps)
  moreover have "\<exists>e. parse_vote 11 abc_question = Inl e"
    using C3_count_and_distinct [OF h(3) v3]
    by (simp add: abc_fields abc_question_simps)
  ultimately show ?thesis by simp
qed

section \<open>The results\<close>




subsection \<open>Rounding to a double\<close>

























subsection \<open>The percentages\<close>

lemma fill_answers_length: "length (snd (fill_answers al t as)) = length as"
  by (induction as) (auto simp: Let_def split: option.splits sum.splits)






text \<open>
  Claim C8: the question that \<^verbatim>\<open>fill_results\<close> leaves has the report's number of
  counted ballots as its total votes, and the report's dirty ballots minus the counted
  ballots as its dirty votes, whether or not the loop over the answers raises later. Ten
  counted ballots and twelve dirty ballots give two dirty votes.
\<close>

theorem C8_totals:
  "q_total_votes (snd (fill_results report question)) = r_ballots_count report
   \<and> q_dirty_votes (snd (fill_results report question)) =
       r_dirty_ballots_count report - r_ballots_count report
   \<and> q_dirty_votes (snd (fill_results (report\<lparr>r_ballots_count := 10, r_dirty_ballots_count := 12\<rparr>) question)) = 2"
  by (simp add: fill_results_def Let_def)

theorem C8_witness:
  "q_total_votes (snd (fill_results abc_report abc_question)) = 10
   \<and> q_dirty_votes (snd (fill_results abc_report abc_question)) = 2"
  using C8_totals [of abc_report abc_question] by (simp add: abc_report_def)

end
